theory Spec2Isabelle
  imports Complex_Main
begin

section \<open>JavaScript arithmetic used by the application\<close>

text \<open>
  JavaScript numbers are modelled as reals. The remainder operator \<open>a % n\<close> truncates
  the quotient towards zero, so the result carries the sign of the dividend. The
  application only ever divides by a non-zero constant or by the length of a non-empty
  array (the callers guard the empty case).
\<close>

definition js_trunc :: "real \<Rightarrow> int" where
  "js_trunc q = (if q < 0 then \<lceil>q\<rceil> else \<lfloor>q\<rfloor>)"

definition js_rem :: "real \<Rightarrow> real \<Rightarrow> real" where
  "js_rem a n = a - n * of_int (js_trunc (a / n))"

text \<open>The same operator on integer operands (array indices).\<close>

definition js_rem_int :: "int \<Rightarrow> int \<Rightarrow> int" where
  "js_rem_int a n = sgn a * (\<bar>a\<bar> mod \<bar>n\<bar>)"

section \<open>services/geminiService.ts: the angle description\<close>

text \<open>
  \<open>getAngleDescription\<close> returns one of five template strings; the value keeps which
  template was chosen, and for the last one the number interpolated into it.
\<close>

datatype angle_description =
    Frente
  | PerfilDerecho
  | Espalda
  | PerfilIzquierdo
  | AnguloOblicuo real

definition getAngleDescription :: "real \<Rightarrow> angle_description" where
  "getAngleDescription angle =
     (let normAngle = js_rem (js_rem angle 360 + 360) 360 in
      if normAngle \<ge> 315 \<or> normAngle < 45 then Frente
      else if normAngle \<ge> 45 \<and> normAngle < 135 then PerfilDerecho
      else if normAngle \<ge> 135 \<and> normAngle < 225 then Espalda
      else if normAngle \<ge> 225 \<and> normAngle < 315 then PerfilIzquierdo
      else AnguloOblicuo angle)"

section \<open>components/ImageDisplay.tsx: drag to scrub\<close>

definition sensitivity :: real where
  "sensitivity = 5"

text \<open>
  The index arithmetic of the rotating branch of \<open>handleMouseMove\<close>: the step count is
  \<open>Math.floor(deltaX / sensitivity)\<close>, the new index is
  \<open>(startIndex - steps) % length\<close>, lifted by \<open>length\<close> when negative.
\<close>

definition scrubSteps :: "real \<Rightarrow> int" where
  "scrubSteps deltaX = \<lfloor>deltaX / sensitivity\<rfloor>"

definition scrubIndex :: "int \<Rightarrow> real \<Rightarrow> nat \<Rightarrow> int" where
  "scrubIndex startIndex deltaX len =
     (let steps = scrubSteps deltaX;
          newIndex = js_rem_int (startIndex - steps) (int len)
      in if newIndex < 0 then newIndex + int len else newIndex)"

section \<open>components/KnobControl.tsx: pointer position to angle\<close>

text \<open>
  \<open>Math.atan2(y, x)\<close> on reals: the angle of the point \<open>(x, y)\<close> in \<open>(-\<pi>, \<pi>]\<close>,
  with \<open>atan2(0, 0) = 0\<close>.
\<close>

definition atan2 :: "real \<Rightarrow> real \<Rightarrow> real" where
  "atan2 y x =
     (if 0 < x then arctan (y / x)
      else if x < 0 \<and> 0 \<le> y then arctan (y / x) + pi
      else if x < 0 \<and> y < 0 then arctan (y / x) - pi
      else if 0 < y then pi / 2
      else if y < 0 then - (pi / 2)
      else 0)"

record DOMRect =
  rectLeft :: real
  rectTop :: real
  rectWidth :: real
  rectHeight :: real

text \<open>
  \<open>calculateAngle\<close>; the first argument is \<open>knobRef.current?.getBoundingClientRect()\<close>,
  \<open>None\<close> while the knob is not mounted. \<open>Math.round\<close> is \<open>\<lfloor>x + 1/2\<rfloor>\<close>, which is
  \<^const>\<open>round\<close>.
\<close>

definition calculateAngle :: "DOMRect option \<Rightarrow> real \<Rightarrow> real \<Rightarrow> real" where
  "calculateAngle knob clientX clientY =
     (case knob of
        None \<Rightarrow> 0
      | Some rect \<Rightarrow>
          (let centerX = rectLeft rect + rectWidth rect / 2;
               centerY = rectTop rect + rectHeight rect / 2;
               dx = clientX - centerX;
               dy = clientY - centerY;
               angle0 = atan2 dy dx * (180 / pi);
               angle1 = angle0 + 90;
               angle2 = (if angle1 < 0 then angle1 + 360 else angle1)
           in of_int (round angle2)))"

section \<open>The data model\<close>

text \<open>
  \<open>SceneImage\<close> and \<open>AppState\<close> are declared in \<open>types.ts\<close>; their fields and members
  are taken from the way \<open>App.tsx\<close> builds and reads them. Identifiers produced by
  \<open>crypto.randomUUID()\<close> are drawn from a counter, so every call yields a fresh one.
\<close>

record SceneImage =
  imageId :: nat
  data :: string
  mimeType :: string
  angle :: real
  isOriginal :: bool

datatype AppState =
    IDLE | UPLOADING | READY | ANALYZING | GENERATING | GENERATING_SEQUENCE | ERROR

section \<open>services/geminiService.ts: the remote collaborator\<close>

text \<open>
  What the client library hands back from \<open>generateContent\<close>: either an exception with
  a message, or a response object. Only the fields the service reads are kept.
\<close>

record Part =
  inlineData :: "string option"
  partText :: "string option"

record Candidate =
  finishReason :: "string option"
  contentParts :: "Part list option"

record GenerateContentResponse =
  blockReason :: "string option"
  candidates :: "Candidate list option"

type_synonym api_answer = "string + GenerateContentResponse"

text \<open>The errors the two services throw, one constructor per kind of failure.\<close>

datatype remote_error =
    SafetyBlock string
  | NoResults
  | SafetyStop
  | TextResponse string
  | NoImage
  | Thrown string
  | DefaultError

text \<open>What is sent: the parts of the prompt that vary, and the image attached.\<close>

datatype request =
    GenerateReq angle_description string SceneImage
  | EnhanceReq string string SceneImage
  | AnalyzeReq SceneImage

definition truthy :: "string option \<Rightarrow> bool" where
  "truthy s = (case s of None \<Rightarrow> False | Some t \<Rightarrow> t \<noteq> [])"

text \<open>
  The loop over \<open>candidate.content.parts\<close>: the first part with inline data ends it
  with the data URL (\<open>Inr\<close>); otherwise the texts are concatenated (\<open>Inl\<close>).
\<close>

fun scanParts :: "Part list \<Rightarrow> string \<Rightarrow> string + string" where
  "scanParts [] textResponse = Inl textResponse"
| "scanParts (part # rest) textResponse =
     (case inlineData part of
        Some d \<Rightarrow> Inr (''data:image/png;base64,'' @ d)
      | None \<Rightarrow>
          scanParts rest
            (if truthy (partText part) then textResponse @ the (partText part)
             else textResponse))"

definition rethrow :: "string \<Rightarrow> remote_error" where
  "rethrow message = (if message = [] then DefaultError else Thrown message)"

definition generateSceneFromAngle :: "api_answer \<Rightarrow> remote_error + string" where
  "generateSceneFromAngle answer =
     (case answer of
        Inl message \<Rightarrow> Inl (rethrow message)
      | Inr response \<Rightarrow>
          if truthy (blockReason response) then Inl (SafetyBlock (the (blockReason response)))
          else (case candidates response of
                  None \<Rightarrow> Inl NoResults
                | Some [] \<Rightarrow> Inl NoResults
                | Some (candidate # _) \<Rightarrow>
                    if truthy (finishReason candidate)
                       \<and> finishReason candidate \<noteq> Some ''STOP''
                       \<and> finishReason candidate = Some ''SAFETY''
                    then Inl SafetyStop
                    else (case scanParts (case contentParts candidate of None \<Rightarrow> [] | Some ps \<Rightarrow> ps) [] of
                            Inr dataUrl \<Rightarrow> Inr dataUrl
                          | Inl textResponse \<Rightarrow>
                              if textResponse \<noteq> [] then Inl (TextResponse (take 150 textResponse))
                              else Inl NoImage)))"

definition enhanceImage :: "api_answer \<Rightarrow> remote_error + string" where
  "enhanceImage answer =
     (case answer of
        Inl message \<Rightarrow> Inl (rethrow message)
      | Inr response \<Rightarrow>
          if truthy (blockReason response) then Inl (SafetyBlock (the (blockReason response)))
          else (case candidates response of
                  None \<Rightarrow> Inl NoResults
                | Some [] \<Rightarrow> Inl NoResults
                | Some (candidate # _) \<Rightarrow>
                    (case scanParts (case contentParts candidate of None \<Rightarrow> [] | Some ps \<Rightarrow> ps) [] of
                       Inr dataUrl \<Rightarrow> Inr dataUrl
                     | Inl textResponse \<Rightarrow>
                         if textResponse \<noteq> [] then Inl (TextResponse (take 100 textResponse))
                         else Inl NoImage)))"

section \<open>App.tsx: the application state and its handlers\<close>

datatype ui_error =
    FileTooLarge
  | AnalyzeFailed
  | RemoteError remote_error
  | SequenceStopped remote_error

text \<open>
  The React state of \<open>App\<close>. Two fields are not in the source: \<open>nextId\<close> is the supply
  behind \<open>crypto.randomUUID()\<close>, and \<open>remoteLog\<close> records every request issued to the
  remote model, in order.
\<close>

record App =
  appState :: AppState
  originalImage :: "SceneImage option"
  currentImage :: "SceneImage option"
  sequenceImages :: "SceneImage list"
  targetAngle :: real
  error :: "ui_error option"
  contextPrompt :: string
  nextId :: nat
  remoteLog :: "request list"

definition initialApp :: App where
  "initialApp =
     \<lparr>appState = IDLE, originalImage = None, currentImage = None, sequenceImages = [],
      targetAngle = 0, error = None, contextPrompt = [], nextId = 0, remoteLog = []\<rparr>"

record File =
  fileSize :: nat
  fileType :: string
  fileDataURL :: string

text \<open>\<open>handleFileChange\<close>, with the \<open>FileReader\<close> callback run at once.\<close>

definition handleFileChange :: "File option \<Rightarrow> App \<Rightarrow> App" where
  "handleFileChange file st =
     (case file of
        None \<Rightarrow> st
      | Some f \<Rightarrow>
          if fileSize f > 5 * 1024 * 1024 then st\<lparr>error := Some FileTooLarge\<rparr>
          else
            (let newImage = \<lparr>imageId = nextId st, data = fileDataURL f, mimeType = fileType f,
                             angle = 0, isOriginal = True\<rparr>
             in st\<lparr>appState := READY, error := None,
                   originalImage := Some newImage, currentImage := Some newImage,
                   sequenceImages := [newImage], targetAngle := 0,
                   nextId := nextId st + 1\<rparr>))"

text \<open>
  \<open>handleAutoContext\<close>; the answer is the exception message or \<open>response.text\<close>.
\<close>

definition analyzeImage :: "string + string \<Rightarrow> string + string" where
  "analyzeImage answer =
     (case answer of
        Inl message \<Rightarrow> Inl message
      | Inr txt \<Rightarrow> Inr (if txt = [] then ''No se pudo analizar la imagen.'' else txt))"

definition handleAutoContext :: "string + string \<Rightarrow> App \<Rightarrow> App" where
  "handleAutoContext answer st =
     (case originalImage st of
        None \<Rightarrow> st
      | Some orig \<Rightarrow>
          (let st1 = st\<lparr>appState := ANALYZING, remoteLog := remoteLog st @ [AnalyzeReq orig]\<rparr>
           in case analyzeImage answer of
                Inr description \<Rightarrow> st1\<lparr>contextPrompt := description, appState := READY\<rparr>
              | Inl _ \<Rightarrow> st1\<lparr>error := Some AnalyzeFailed, appState := READY\<rparr>))"

text \<open>
  The replacement both enhancement handlers apply to the sequence:
  \<open>sequenceImages.map(img => Math.abs(img.angle - currentImage.angle) < 1 ? newImage : img)\<close>,
  skipped when the sequence is empty.
\<close>

definition replaceAtAngle :: "SceneImage \<Rightarrow> SceneImage \<Rightarrow> SceneImage list \<Rightarrow> SceneImage list" where
  "replaceAtAngle cur newImage seq =
     (if length seq > 0
      then map (\<lambda>img. if \<bar>angle img - angle cur\<bar> < 1 then newImage else img) seq
      else seq)"

definition handleEnhancement :: "string \<Rightarrow> api_answer \<Rightarrow> App \<Rightarrow> App" where
  "handleEnhancement type answer st =
     (case currentImage st of
        None \<Rightarrow> st
      | Some cur \<Rightarrow>
          (let st1 = st\<lparr>appState := GENERATING, error := None,
                         remoteLog := remoteLog st @ [EnhanceReq type (contextPrompt st) cur]\<rparr>
           in case enhanceImage answer of
                Inr dataUrl \<Rightarrow>
                  (let newImage = \<lparr>imageId = nextId st, data = dataUrl, mimeType = ''image/png'',
                                   angle = angle cur, isOriginal = False\<rparr>
                   in st1\<lparr>currentImage := Some newImage,
                          sequenceImages := replaceAtAngle cur newImage (sequenceImages st),
                          appState := READY, nextId := nextId st + 1\<rparr>)
              | Inl e \<Rightarrow> st1\<lparr>error := Some (RemoteError e), appState := ERROR\<rparr>))"

definition handleRemoveBackground :: "api_answer \<Rightarrow> App \<Rightarrow> App" where
  "handleRemoveBackground answer st =
     (case currentImage st of
        None \<Rightarrow> st
      | Some cur \<Rightarrow>
          (let st1 = st\<lparr>appState := GENERATING,
                         remoteLog := remoteLog st
                           @ [EnhanceReq ''BACKGROUND_REMOVAL'' (contextPrompt st) cur]\<rparr>
           in case enhanceImage answer of
                Inr dataUrl \<Rightarrow>
                  (let newImage = \<lparr>imageId = nextId st, data = dataUrl, mimeType = ''image/png'',
                                   angle = angle cur, isOriginal = False\<rparr>
                   in st1\<lparr>currentImage := Some newImage,
                          sequenceImages := replaceAtAngle cur newImage (sequenceImages st),
                          appState := READY, nextId := nextId st + 1\<rparr>)
              | Inl e \<Rightarrow> st1\<lparr>error := Some (RemoteError e), appState := ERROR\<rparr>))"

text \<open>
  The \<open>for\<close> loop of \<open>handleGenerateSequence\<close>. The answers of the remote model are
  consumed in order, one per call; when none is left the call stays pending and the
  state is the one shown at that moment. \<open>Array.prototype.sort\<close> with the comparator
  \<open>a.angle - b.angle\<close> is a stable sort by angle, as \<^const>\<open>sort_key\<close> is. The half
  second pause before each call is not modelled.
\<close>

fun sequenceLoop ::
  "SceneImage \<Rightarrow> real list \<Rightarrow> api_answer list \<Rightarrow> SceneImage list \<Rightarrow> App \<Rightarrow> App" where
  "sequenceLoop orig [] answers newSequence st =
     st\<lparr>appState := READY, currentImage := Some orig\<rparr>"
| "sequenceLoop orig (a # angles) answers newSequence st =
     (if a = 0 then sequenceLoop orig angles answers newSequence st
      else
        (let st1 = st\<lparr>remoteLog := remoteLog st
                        @ [GenerateReq (getAngleDescription a) (contextPrompt st) orig]\<rparr>
         in case answers of
              [] \<Rightarrow> st1
            | answer # answers' \<Rightarrow>
                (case generateSceneFromAngle answer of
                   Inl e \<Rightarrow> st1\<lparr>error := Some (SequenceStopped e), appState := ERROR\<rparr>
                 | Inr dataUrl \<Rightarrow>
                     (let newSequence' = newSequence
                            @ [\<lparr>imageId = nextId st, data = dataUrl, mimeType = ''image/png'',
                                angle = a, isOriginal = False\<rparr>]
                      in sequenceLoop orig angles answers' newSequence'
                           (st1\<lparr>sequenceImages := sort_key angle newSequence',
                                 nextId := nextId st + 1\<rparr>)))))"

definition sweepAngles :: "real list" where
  "sweepAngles = [0, 45, 90, 135, 180, 225, 270, 315]"

definition handleGenerateSequence :: "api_answer list \<Rightarrow> App \<Rightarrow> App" where
  "handleGenerateSequence answers st =
     (case originalImage st of
        None \<Rightarrow> st
      | Some orig \<Rightarrow>
          sequenceLoop orig sweepAngles answers [orig]
            (st\<lparr>appState := GENERATING_SEQUENCE, error := None\<rparr>))"

definition handleAngleRelease :: "real \<Rightarrow> api_answer \<Rightarrow> App \<Rightarrow> App" where
  "handleAngleRelease finalAngle answer st =
     (case originalImage st of
        None \<Rightarrow> st
      | Some orig \<Rightarrow>
          (case find (\<lambda>img. \<bar>angle img - finalAngle\<bar> < 10) (sequenceImages st) of
             Some existing \<Rightarrow> st\<lparr>currentImage := Some existing\<rparr>
           | None \<Rightarrow>
               if finalAngle > 350 \<or> finalAngle < 10 then st\<lparr>currentImage := Some orig\<rparr>
               else
                 (let st1 = st\<lparr>appState := GENERATING, error := None,
                                remoteLog := remoteLog st
                                  @ [GenerateReq (getAngleDescription finalAngle)
                                       (contextPrompt st) orig]\<rparr>
                  in case generateSceneFromAngle answer of
                       Inr generatedDataUrl \<Rightarrow>
                         (let generatedImage =
                                \<lparr>imageId = nextId st, data = generatedDataUrl,
                                 mimeType = ''image/png'', angle = finalAngle,
                                 isOriginal = False\<rparr>
                          in st1\<lparr>currentImage := Some generatedImage,
                                 sequenceImages :=
                                   sort_key angle (sequenceImages st @ [generatedImage]),
                                 appState := READY, nextId := nextId st + 1\<rparr>)
                     | Inl e \<Rightarrow> st1\<lparr>error := Some (RemoteError e), appState := ERROR\<rparr>)))"

definition handleManualAngleChange :: "real \<Rightarrow> App \<Rightarrow> App" where
  "handleManualAngleChange a st = st\<lparr>targetAngle := a\<rparr>"

definition handleViewerAngleSelect :: "SceneImage \<Rightarrow> App \<Rightarrow> App" where
  "handleViewerAngleSelect img st = st\<lparr>currentImage := Some img, targetAngle := angle img\<rparr>"

definition isBusy :: "App \<Rightarrow> bool" where
  "isBusy st =
     (appState st = GENERATING \<or> appState st = GENERATING_SEQUENCE \<or> appState st = ANALYZING)"

text \<open>
  The events the rendered page can deliver. Buttons and the knob are disabled while
  \<open>isBusy\<close>; the file input, the text area and the viewer are not. The knob reports the
  angle under the pointer through \<open>onChange\<close> and, on release, passes the current
  \<open>targetAngle\<close> to \<open>handleAngleRelease\<close>. The viewer only ever selects an element of
  the sequence it was given.

  Each handler runs to its end in one step, with the answer of the remote model given
  in the event; a sweep whose answers have run out stays where it is and is not resumed.
  The file input stays enabled while a request is in flight, so in the page a second
  upload can arrive before an earlier handler has finished, and that handler then
  writes images built from the earlier original. Such interleavings are outside this
  model: what is proved about the flagged original is stated for sessions with a single
  accepted upload, where every handler works from the same original.
\<close>

datatype event =
    FileChange "File option"
  | ContextInput string
  | AutoContextClick "string + string"
  | EnhancementClick string api_answer
  | RemoveBackgroundClick api_answer
  | GenerateSequenceClick "api_answer list"
  | KnobChange real
  | KnobRelease api_answer
  | ViewerSelect nat

fun dispatch :: "event \<Rightarrow> App \<Rightarrow> App" where
  "dispatch (FileChange file) st = handleFileChange file st"
| "dispatch (ContextInput txt) st = st\<lparr>contextPrompt := txt\<rparr>"
| "dispatch (AutoContextClick answer) st =
     (if isBusy st then st else handleAutoContext answer st)"
| "dispatch (EnhancementClick type answer) st =
     (if isBusy st then st else handleEnhancement type answer st)"
| "dispatch (RemoveBackgroundClick answer) st =
     (if isBusy st then st else handleRemoveBackground answer st)"
| "dispatch (GenerateSequenceClick answers) st =
     (if isBusy st then st else handleGenerateSequence answers st)"
| "dispatch (KnobChange a) st =
     (if isBusy st then st else handleManualAngleChange a st)"
| "dispatch (KnobRelease answer) st =
     (if isBusy st then st else handleAngleRelease (targetAngle st) answer st)"
| "dispatch (ViewerSelect i) st =
     (if i < length (sequenceImages st) then handleViewerAngleSelect (sequenceImages st ! i) st
      else st)"

definition run :: "event list \<Rightarrow> App \<Rightarrow> App" where
  "run events st = fold dispatch events st"

text \<open>Every image the state holds: the original, the current one and the sequence.\<close>

definition appImages :: "App \<Rightarrow> SceneImage set" where
  "appImages st = set_option (originalImage st) \<union> set_option (currentImage st)
                  \<union> set (sequenceImages st)"

section \<open>components/ImageDisplay.tsx: the viewer's mouse handlers\<close>

record Viewer =
  isCompareMode :: bool
  isDragging :: bool
  startX :: real
  startY :: real
  startIndex :: int
  scale :: real
  translate :: "real \<times> real"
  startTranslate :: "real \<times> real"

text \<open>
  \<open>sequenceImages[newIndex]\<close>: reading a JavaScript array outside its bounds gives
  \<open>undefined\<close>, here \<open>None\<close>.
\<close>

definition arrayRead :: "'a list \<Rightarrow> int \<Rightarrow> 'a option" where
  "arrayRead xs i = (if 0 \<le> i \<and> nat i < length xs then Some (xs ! nat i) else None)"

text \<open>
  \<open>handleMouseMove\<close> returns the new viewer state and the image handed to
  \<open>onAngleSelect\<close>, if the callback is called.
\<close>

definition handleMouseMove ::
  "SceneImage option \<Rightarrow> SceneImage list \<Rightarrow> real \<Rightarrow> real \<Rightarrow> Viewer
     \<Rightarrow> Viewer \<times> SceneImage option" where
  "handleMouseMove img seq clientX clientY v =
     (if \<not> isDragging v \<or> isCompareMode v \<or> img = None then (v, None)
      else if scale v > 1 then
        (let deltaX = clientX - startX v; deltaY = clientY - startY v
         in (v\<lparr>translate := (fst (startTranslate v) + deltaX, snd (startTranslate v) + deltaY)\<rparr>,
             None))
      else if length seq > 0 then
        (let deltaX = clientX - startX v;
             newIndex = scrubIndex (startIndex v) deltaX (length seq)
         in case arrayRead seq newIndex of
              Some selectedImage \<Rightarrow>
                (v, if Some (imageId selectedImage) \<noteq> map_option imageId img
                    then Some selectedImage else None)
            | None \<Rightarrow> (v, None))
      else (v, None))"

section \<open>Reachable states and sample inputs\<close>

text \<open>
  What every state reached from \<open>initialApp\<close> satisfies: before an upload nothing is
  held; afterwards the original is flagged, sits at angle 0, and is the only flagged
  image among the current image and the sequence.
\<close>

definition wellFormed :: "App \<Rightarrow> bool" where
  "wellFormed st =
     (case originalImage st of
        None \<Rightarrow> currentImage st = None \<and> sequenceImages st = []
      | Some orig \<Rightarrow>
          isOriginal orig \<and> angle orig = 0
          \<and> (\<forall>img \<in> set_option (currentImage st) \<union> set (sequenceImages st).
                isOriginal img \<longrightarrow> img = orig))"

definition sampleFile :: File where
  "sampleFile =
     \<lparr>fileSize = 1000, fileType = ''image/jpeg'', fileDataURL = ''data:image/jpeg;base64,AAAA''\<rparr>"

definition sampleOriginal :: SceneImage where
  "sampleOriginal =
     \<lparr>imageId = 0, data = ''data:image/jpeg;base64,AAAA'', mimeType = ''image/jpeg'',
      angle = 0, isOriginal = True\<rparr>"

definition imageAnswer :: api_answer where
  "imageAnswer =
     Inr \<lparr>blockReason = None,
          candidates =
            Some [\<lparr>finishReason = Some ''STOP'',
                   contentParts = Some [\<lparr>inlineData = Some ''BBBB'', partText = None\<rparr>]\<rparr>]\<rparr>"

definition blockedAnswer :: api_answer where
  "blockedAnswer = Inr \<lparr>blockReason = Some ''OTHER'', candidates = None\<rparr>"

text \<open>A session: upload, then the knob released at 200 and at 100 degrees.\<close>

definition sampleSession :: "event list" where
  "sampleSession =
     [FileChange (Some sampleFile), KnobChange 200, KnobRelease imageAnswer,
      KnobChange 100, KnobRelease imageAnswer]"

definition uploaded :: App where
  "uploaded = handleFileChange (Some sampleFile) initialApp"

text \<open>The knob as laid out on a page: 192 pixels wide, its centre at (196, 296).\<close>

definition knobRect :: DOMRect where
  "knobRect = \<lparr>rectLeft = 100, rectTop = 200, rectWidth = 192, rectHeight = 192\<rparr>"

text \<open>
  The description the claim about \<open>getAngleDescription\<close> expects, written from its words
  and not from the code: the angle is reduced to \<open>[0, 360)\<close> and named after the nearest
  of the four cardinal directions, a tie going to the next direction clockwise.
  \<open>cardinalAngle\<close> is the direction a description names.
\<close>

definition nearestCardinalBucket :: "real \<Rightarrow> angle_description" where
  "nearestCardinalBucket a =
     (let r = a - 360 * of_int \<lfloor>a / 360\<rfloor> in
      if r < 45 then Frente
      else if r < 135 then PerfilDerecho
      else if r < 225 then Espalda
      else if r < 315 then PerfilIzquierdo
      else Frente)"

definition cardinalAngle :: "angle_description \<Rightarrow> real" where
  "cardinalAngle d =
     (case d of Frente \<Rightarrow> 0 | PerfilDerecho \<Rightarrow> 90 | Espalda \<Rightarrow> 180
      | PerfilIzquierdo \<Rightarrow> 270 | AnguloOblicuo x \<Rightarrow> x)"

text \<open>
  An upload the application accepts (a file that passes the size check), and the states
  in which no upload has been accepted yet.
\<close>

fun acceptedUpload :: "event \<Rightarrow> bool" where
  "acceptedUpload (FileChange (Some f)) = (\<not> fileSize f > 5 * 1024 * 1024)"
| "acceptedUpload _ = False"

definition beforeUpload :: "App \<Rightarrow> bool" where
  "beforeUpload st =
     (originalImage st = None \<and> currentImage st = None \<and> sequenceImages st = []
      \<and> nextId st = 0)"

section \<open>Evaluation\<close>

lemmas eval_defs =
  run_def initialApp_def handleFileChange_def handleAngleRelease_def handleManualAngleChange_def
  handleEnhancement_def handleRemoveBackground_def handleGenerateSequence_def
  handleViewerAngleSelect_def handleAutoContext_def
  isBusy_def generateSceneFromAngle_def enhanceImage_def truthy_def rethrow_def
  sampleFile_def sampleOriginal_def imageAnswer_def blockedAnswer_def sampleSession_def
  uploaded_def replaceAtAngle_def sweepAngles_def Let_def

lemma generate_imageAnswer:
  "generateSceneFromAngle imageAnswer = Inr ''data:image/png;base64,BBBB''"
  by (simp add: eval_defs)

lemma generate_blockedAnswer:
  "generateSceneFromAngle blockedAnswer = Inl (SafetyBlock ''OTHER'')"
  by (simp add: eval_defs)

lemma enhance_imageAnswer: "enhanceImage imageAnswer = Inr ''data:image/png;base64,BBBB''"
  by (simp add: eval_defs)

lemma uploaded_original: "originalImage uploaded = Some sampleOriginal"
  by (simp add: eval_defs)

lemma uploaded_current: "currentImage uploaded = Some sampleOriginal"
  by (simp add: eval_defs)

lemma sampleSession_angles:
  "map angle (sequenceImages (run sampleSession initialApp)) = [0, 100, 200]"
  by (simp add: eval_defs)

lemma sampleSession_original: "originalImage (run sampleSession initialApp) = Some sampleOriginal"
  by (simp add: eval_defs)

section \<open>The remainder operator\<close>

lemma js_rem_nonneg_range:
  assumes "0 \<le> a" and "0 < n"
  shows "0 \<le> js_rem a n \<and> js_rem a n < n"
proof -
  have q: "0 \<le> a / n" using assms by simp
  have fl: "of_int \<lfloor>a / n\<rfloor> \<le> a / n" "a / n < of_int \<lfloor>a / n\<rfloor> + 1"
    by linarith+
  have e: "n * (a / n) = a" using assms(2) by simp
  have "n * of_int \<lfloor>a / n\<rfloor> \<le> n * (a / n)"
    using fl(1) assms(2) by (intro mult_left_mono) auto
  moreover have "n * (a / n) < n * (of_int \<lfloor>a / n\<rfloor> + 1)"
    using fl(2) assms(2) by (intro mult_strict_left_mono) auto
  ultimately show ?thesis
    using q unfolding e by (simp add: js_rem_def js_trunc_def algebra_simps)
qed

lemma js_rem_neg_range:
  assumes "a < 0" and "0 < n"
  shows "- n < js_rem a n \<and> js_rem a n \<le> 0"
proof -
  have q: "a / n < 0" using assms by (simp add: divide_neg_pos)
  have cl: "a / n \<le> of_int \<lceil>a / n\<rceil>" "of_int \<lceil>a / n\<rceil> - 1 < a / n"
    by linarith+
  have e: "n * (a / n) = a" using assms(2) by simp
  have "n * (a / n) \<le> n * of_int \<lceil>a / n\<rceil>"
    using cl(1) assms(2) by (intro mult_left_mono) auto
  moreover have "n * (of_int \<lceil>a / n\<rceil> - 1) < n * (a / n)"
    using cl(2) assms(2) by (intro mult_strict_left_mono) auto
  ultimately show ?thesis
    using q unfolding e by (simp add: js_rem_def js_trunc_def algebra_simps)
qed

lemma normAngle_range:
  "0 \<le> js_rem (js_rem a 360 + 360) 360 \<and> js_rem (js_rem a 360 + 360) 360 < 360"
proof -
  have "0 \<le> js_rem a 360 + 360"
    using js_rem_nonneg_range[of a 360] js_rem_neg_range[of a 360]
    by (cases "0 \<le> a") auto
  then show ?thesis using js_rem_nonneg_range by simp
qed

lemma js_rem_int_bound:
  assumes "0 < n"
  shows "- n < js_rem_int a n \<and> js_rem_int a n < n"
proof -
  have "0 \<le> \<bar>a\<bar> mod \<bar>n\<bar> \<and> \<bar>a\<bar> mod \<bar>n\<bar> < n" using assms by simp
  then show ?thesis
    by (cases "a < 0"; cases "a = 0") (auto simp: js_rem_int_def sgn_if)
qed

section \<open>The angle description\<close>

text \<open>
  The double remainder of the source is the usual reduction to \<open>[0, 360)\<close>.
\<close>

lemma js_rem_floor:
  assumes "0 \<le> x"
  shows "js_rem x 360 = x - 360 * of_int \<lfloor>x / 360\<rfloor>"
  using assms by (simp add: js_rem_def js_trunc_def)

lemma normAngle_floor:
  "js_rem (js_rem a 360 + 360) 360 = a - 360 * of_int \<lfloor>a / 360\<rfloor>"
proof -
  define k where "k = js_trunc (a / 360)"
  define x where "x = js_rem a 360 + 360"
  have x: "x = a - 360 * of_int (k - 1)"
    by (simp add: x_def k_def js_rem_def)
  have nn: "0 \<le> x"
    unfolding x_def
    using js_rem_nonneg_range[of a 360] js_rem_neg_range[of a 360]
    by (cases "0 \<le> a") auto
  have "x / 360 = a / 360 - of_int (k - 1)"
    unfolding x by (simp add: field_simps)
  then have fl: "\<lfloor>x / 360\<rfloor> = \<lfloor>a / 360\<rfloor> - (k - 1)"
    by (simp only: floor_diff_of_int)
  have "js_rem x 360 = x - 360 * of_int \<lfloor>x / 360\<rfloor>"
    using nn by (rule js_rem_floor)
  also have "\<dots> = x - 360 * of_int (\<lfloor>a / 360\<rfloor> - (k - 1))"
    by (simp only: fl)
  also have "\<dots> = a - 360 * of_int \<lfloor>a / 360\<rfloor>"
    unfolding x by (simp add: algebra_simps)
  finally show ?thesis unfolding x_def .
qed

lemma floor_rem_range:
  "0 \<le> a - 360 * of_int \<lfloor>a / 360\<rfloor> \<and> a - 360 * of_int \<lfloor>a / 360\<rfloor> < (360::real)"
proof -
  have "of_int \<lfloor>a / 360\<rfloor> \<le> a / 360" "a / 360 < of_int \<lfloor>a / 360\<rfloor> + 1"
    by linarith+
  then show ?thesis by (simp add: field_simps)
qed

lemma getAngleDescription_bucket: "getAngleDescription a = nearestCardinalBucket a"
  using floor_rem_range[of a]
  by (auto simp: getAngleDescription_def nearestCardinalBucket_def normAngle_floor Let_def)

lemma bucket_within_45:
  "\<exists>k::int. \<bar>a - cardinalAngle (nearestCardinalBucket a) - 360 * of_int k\<bar> \<le> 45"
proof -
  define r where "r = a - 360 * of_int \<lfloor>a / 360\<rfloor>"
  have rr: "0 \<le> r" "r < 360" using floor_rem_range[of a] by (simp_all add: r_def)
  have nb: "nearestCardinalBucket a =
              (if r < 45 then Frente else if r < 135 then PerfilDerecho
               else if r < 225 then Espalda else if r < 315 then PerfilIzquierdo else Frente)"
    by (simp add: nearestCardinalBucket_def Let_def r_def)
  show ?thesis
  proof (cases "r < 315")
    case True
    have "a - cardinalAngle (nearestCardinalBucket a) - 360 * of_int \<lfloor>a / 360\<rfloor>
          = r - cardinalAngle (nearestCardinalBucket a)"
      by (simp add: r_def)
    moreover have "\<bar>r - cardinalAngle (nearestCardinalBucket a)\<bar> \<le> 45"
      unfolding nb using True rr by (auto simp: cardinalAngle_def)
    ultimately have
      "\<bar>a - cardinalAngle (nearestCardinalBucket a) - 360 * of_int \<lfloor>a / 360\<rfloor>\<bar> \<le> 45"
      by simp
    then show ?thesis by blast
  next
    case False
    have "a - cardinalAngle (nearestCardinalBucket a) - 360 * of_int (\<lfloor>a / 360\<rfloor> + 1)
          = r - 360 - cardinalAngle (nearestCardinalBucket a)"
      by (simp add: r_def)
    moreover have "\<bar>r - 360 - cardinalAngle (nearestCardinalBucket a)\<bar> \<le> 45"
      unfolding nb using False rr by (auto simp: cardinalAngle_def)
    ultimately have
      "\<bar>a - cardinalAngle (nearestCardinalBucket a) - 360 * of_int (\<lfloor>a / 360\<rfloor> + 1)\<bar> \<le> 45"
      by simp
    then show ?thesis by blast
  qed
qed

text \<open>
  Claim C10. For every real angle, negative or beyond 360 included,
  \<open>getAngleDescription\<close> answers with one of the four cardinal descriptions; the
  oblique template of its last line is never produced. The description is the one of
  the nearest cardinal direction: it is the bucket of the angle reduced to \<open>[0, 360)\<close>,
  and the direction it names is at most 45 degrees from the angle, whole turns apart.
  An angle of 63 degrees is described as the right profile. When \<open>handleAngleRelease\<close>
  turns to the remote model, the request carries that bucket and nothing else of the
  angle.
\<close>

theorem getAngleDescription_cardinal:
  "getAngleDescription a \<in> {Frente, PerfilDerecho, Espalda, PerfilIzquierdo}
   \<and> (\<forall>x. getAngleDescription a \<noteq> AnguloOblicuo x)
   \<and> getAngleDescription 63 = PerfilDerecho
   \<and> getAngleDescription a = nearestCardinalBucket a
   \<and> (\<exists>k::int. \<bar>a - cardinalAngle (getAngleDescription a) - 360 * of_int k\<bar> \<le> 45)
   \<and> (\<forall>st orig answer.
         originalImage st = Some orig
         \<longrightarrow> find (\<lambda>img. \<bar>angle img - a\<bar> < 10) (sequenceImages st) = None
         \<longrightarrow> \<not> (a > 350 \<or> a < 10)
         \<longrightarrow> remoteLog (handleAngleRelease a answer st)
               = remoteLog st @ [GenerateReq (nearestCardinalBucket a) (contextPrompt st) orig])"
proof -
  have r: "0 \<le> js_rem (js_rem a 360 + 360) 360 \<and> js_rem (js_rem a 360 + 360) 360 < 360"
    by (rule normAngle_range)
  have c: "getAngleDescription a \<in> {Frente, PerfilDerecho, Espalda, PerfilIzquierdo}"
    using r by (auto simp: getAngleDescription_def Let_def)
  have b: "getAngleDescription 63 = PerfilDerecho"
    by (simp add: getAngleDescription_def js_rem_def js_trunc_def Let_def)
  have l: "getAngleDescription a = nearestCardinalBucket a"
    by (rule getAngleDescription_bucket)
  have n: "\<exists>k::int. \<bar>a - cardinalAngle (getAngleDescription a) - 360 * of_int k\<bar> \<le> 45"
    unfolding l by (rule bucket_within_45)
  have q: "\<forall>st orig answer.
         originalImage st = Some orig
         \<longrightarrow> find (\<lambda>img. \<bar>angle img - a\<bar> < 10) (sequenceImages st) = None
         \<longrightarrow> \<not> (a > 350 \<or> a < 10)
         \<longrightarrow> remoteLog (handleAngleRelease a answer st)
               = remoteLog st @ [GenerateReq (nearestCardinalBucket a) (contextPrompt st) orig]"
    by (auto simp: handleAngleRelease_def Let_def l split: sum.splits)
  have x: "\<forall>x. getAngleDescription a \<noteq> AnguloOblicuo x" using c by auto
  from c x b l n q show ?thesis by blast
qed

theorem getAngleDescription_cardinal_witness:
  "getAngleDescription (-50) = PerfilIzquierdo
   \<and> getAngleDescription (-50) \<in> {Frente, PerfilDerecho, Espalda, PerfilIzquierdo}
   \<and> nearestCardinalBucket (-50) = PerfilIzquierdo
   \<and> remoteLog (handleAngleRelease 63 imageAnswer uploaded)
       = [GenerateReq PerfilDerecho [] sampleOriginal]"
proof -
  have f: "find (\<lambda>img. \<bar>angle img - 63\<bar> < 10) (sequenceImages uploaded) = None"
    by (simp add: eval_defs)
  have g: "\<not> ((63::real) > 350 \<or> (63::real) < 10)" by simp
  have "remoteLog (handleAngleRelease 63 imageAnswer uploaded)
        = remoteLog uploaded
          @ [GenerateReq (nearestCardinalBucket 63) (contextPrompt uploaded) sampleOriginal]"
    using getAngleDescription_cardinal[of 63] uploaded_original f g by blast
  moreover have "nearestCardinalBucket 63 = PerfilDerecho"
    by (simp add: nearestCardinalBucket_def)
  moreover have "remoteLog uploaded = [] \<and> contextPrompt uploaded = []"
    by (simp add: eval_defs)
  ultimately have w: "remoteLog (handleAngleRelease 63 imageAnswer uploaded)
       = [GenerateReq PerfilDerecho [] sampleOriginal]" by simp
  have "getAngleDescription (-50) = nearestCardinalBucket (-50)"
    using getAngleDescription_cardinal[of "-50"] by blast
  moreover have "nearestCardinalBucket (-50) = PerfilIzquierdo"
    by (simp add: nearestCardinalBucket_def)
  ultimately show ?thesis using w by simp
qed



section \<open>Drag to scrub\<close>

text \<open>
  At zoom scale 1, while dragging over a non-empty sequence, \<open>handleMouseMove\<close> reads the
  sequence at \<open>scrubIndex\<close> of the drag distance, and reports the image found there
  unless it is already the one displayed.
\<close>

lemma handleMouseMove_scrub:
  assumes "isDragging v" and "\<not> isCompareMode v" and "img = Some cur"
    and "scale v \<le> 1" and "seq \<noteq> []"
  shows "handleMouseMove img seq clientX clientY v =
           (v, case arrayRead seq (scrubIndex (startIndex v) (clientX - startX v) (length seq)) of
                 Some selectedImage \<Rightarrow>
                   if imageId selectedImage \<noteq> imageId cur then Some selectedImage else None
               | None \<Rightarrow> None)"
  using assms by (auto simp: handleMouseMove_def Let_def split: option.splits)

text \<open>
  Claim C9. For every drag distance and every starting index, the index computed over a
  non-empty sequence lies in \<open>[0, length)\<close>, so the array read that follows is inside
  the array.
\<close>

theorem scrubIndex_in_bounds:
  assumes "seq \<noteq> []"
  shows "0 \<le> scrubIndex start deltaX (length seq)
         \<and> scrubIndex start deltaX (length seq) < int (length seq)
         \<and> arrayRead seq (scrubIndex start deltaX (length seq))
             = Some (seq ! nat (scrubIndex start deltaX (length seq)))"
proof -
  have "0 < int (length seq)" using assms by simp
  then have "- int (length seq) < js_rem_int (start - scrubSteps deltaX) (int (length seq))
             \<and> js_rem_int (start - scrubSteps deltaX) (int (length seq)) < int (length seq)"
    by (rule js_rem_int_bound)
  then have "0 \<le> scrubIndex start deltaX (length seq)
             \<and> scrubIndex start deltaX (length seq) < int (length seq)"
    by (auto simp: scrubIndex_def Let_def)
  then show ?thesis by (auto simp: arrayRead_def nat_less_iff)
qed

theorem scrubIndex_in_bounds_witness:
  "scrubIndex 1 (-13) (length [10, 20, 30 :: nat]) = 1
   \<and> arrayRead [10, 20, 30 :: nat] (scrubIndex 1 (-13) (length [10, 20, 30 :: nat])) = Some 20"
proof -
  have h: "[10, 20, 30 :: nat] \<noteq> []" by simp
  show ?thesis
    using scrubIndex_in_bounds[OF h, of 1 "-13"]
    by (simp add: scrubIndex_def scrubSteps_def sensitivity_def js_rem_int_def arrayRead_def)
qed

text \<open>
  Claim C8. Over a sequence of eight images, a drag of exactly \<open>8 * sensitivity\<close> pixels
  is eight steps and selects the index the drag started at, for each of the eight
  starting indices.
\<close>

theorem scrub_full_wrap:
  assumes "0 \<le> start" and "start < 8"
  shows "scrubSteps (8 * sensitivity) = 8 \<and> scrubIndex start (8 * sensitivity) 8 = start"
proof -
  have s: "scrubSteps (8 * sensitivity) = 8" by (simp add: scrubSteps_def sensitivity_def)
  have "start \<in> {0, 1, 2, 3, 4, 5, 6, 7}" using assms by auto
  then show ?thesis using s
    by (auto simp: scrubIndex_def Let_def js_rem_int_def)
qed

theorem scrub_full_wrap_witness:
  "(0::int) \<le> 3 \<and> (3::int) < 8 \<and> scrubIndex 3 (8 * sensitivity) 8 = 3"
proof -
  have h1: "(0::int) \<le> 3" and h2: "(3::int) < 8" by simp_all
  show ?thesis using scrub_full_wrap[OF h1 h2] by simp
qed

section \<open>The sequence stays sorted\<close>

lemma replaceAtAngle_set:
  "set (replaceAtAngle cur new seq) \<subseteq> insert new (set seq)"
  by (auto simp: replaceAtAngle_def)

lemma replaceAtAngle_sorted:
  assumes "sorted (map angle seq)" and "angle new = angle cur"
  shows "sorted (map angle (replaceAtAngle cur new seq))"
proof -
  have "sorted (map angle (map (\<lambda>img. if \<bar>angle img - angle cur\<bar> < 1 then new else img) seq))"
    using assms
  proof (induction seq)
    case Nil
    then show ?case by simp
  next
    case (Cons x xs)
    then show ?case by (auto simp: abs_less_iff)
  qed
  then show ?thesis using assms by (simp add: replaceAtAngle_def)
qed

lemma sequenceLoop_sorted:
  "sorted (map angle (sequenceImages st))
   \<Longrightarrow> sorted (map angle (sequenceImages (sequenceLoop orig angles answers ns st)))"
proof (induction angles arbitrary: answers ns st)
  case Nil
  then show ?case by simp
next
  case (Cons a angles)
  show ?case
  proof (cases "a = 0")
    case True
    then show ?thesis using Cons by simp
  next
    case False
    show ?thesis
    proof (cases answers)
      case Nil
      then show ?thesis using False Cons.prems by simp
    next
      case (Cons answer rest)
      show ?thesis
      proof (cases "generateSceneFromAngle answer")
        case (Inl e)
        then show ?thesis using False Cons Cons.prems by simp
      next
        case (Inr url)
        then show ?thesis using False Cons
          by (simp add: Let_def Cons.IH)
      qed
    qed
  qed
qed

lemma dispatch_sorted:
  assumes "sorted (map angle (sequenceImages st))"
  shows "sorted (map angle (sequenceImages (dispatch e st)))"
proof (cases e)
  case (FileChange f)
  then show ?thesis using assms
    by (auto simp: handleFileChange_def Let_def split: option.splits)
next
  case (ContextInput x)
  then show ?thesis using assms by simp
next
  case (AutoContextClick x)
  then show ?thesis using assms
    by (auto simp: handleAutoContext_def Let_def split: option.splits sum.splits)
next
  case (EnhancementClick ty ans)
  then show ?thesis using assms
    by (auto simp: handleEnhancement_def Let_def replaceAtAngle_sorted
             split: option.splits sum.splits)
next
  case (RemoveBackgroundClick ans)
  then show ?thesis using assms
    by (auto simp: handleRemoveBackground_def Let_def replaceAtAngle_sorted
             split: option.splits sum.splits)
next
  case (GenerateSequenceClick answers)
  then show ?thesis using assms
    by (auto simp: handleGenerateSequence_def sequenceLoop_sorted split: option.splits)
next
  case (KnobChange a)
  then show ?thesis using assms by (simp add: handleManualAngleChange_def)
next
  case (KnobRelease ans)
  then show ?thesis using assms
    by (auto simp: handleAngleRelease_def Let_def split: option.splits sum.splits)
next
  case (ViewerSelect i)
  then show ?thesis using assms by (simp add: handleViewerAngleSelect_def)
qed

lemma run_sorted:
  "sorted (map angle (sequenceImages st))
   \<Longrightarrow> sorted (map angle (sequenceImages (run events st)))"
  unfolding run_def
  by (induction events arbitrary: st) (simp_all add: dispatch_sorted)

text \<open>
  Claim C4. After every sequence of events the Sequence Store is sorted by angle,
  ascending. The events cover each way an entry is inserted or replaced: seeding on
  upload, the append of a single generated angle, each insertion of a sweep (a sweep
  whose later answers have not arrived is a state of its own) and the replacement made
  by an enhancement or a background removal.
\<close>

theorem sequence_store_sorted:
  "sorted (map angle (sequenceImages (run events initialApp)))"
  by (rule run_sorted) (simp add: initialApp_def)

theorem sequence_store_sorted_witness:
  "map angle (sequenceImages (run sampleSession initialApp)) = [0, 100, 200]
   \<and> sorted (map angle (sequenceImages (run sampleSession initialApp)))"
  using sequence_store_sorted[of sampleSession] sampleSession_angles by simp

section \<open>Well-formed states\<close>

lemma wellFormed_initial: "wellFormed initialApp"
  by (simp add: wellFormed_def initialApp_def)

lemma find_in_set: "find P xs = Some x \<Longrightarrow> x \<in> set xs \<and> P x"
  by (induction xs) (auto split: if_splits)

lemma wellFormed_FileChange: "wellFormed st \<Longrightarrow> wellFormed (handleFileChange f st)"
  by (auto simp: wellFormed_def handleFileChange_def Let_def split: option.splits)

lemma wellFormed_AutoContext: "wellFormed st \<Longrightarrow> wellFormed (handleAutoContext a st)"
  by (auto simp: wellFormed_def handleAutoContext_def Let_def split: option.splits sum.splits)

lemma wellFormed_Enhancement: "wellFormed st \<Longrightarrow> wellFormed (handleEnhancement ty a st)"
  using replaceAtAngle_set
  by (fastforce simp: wellFormed_def handleEnhancement_def Let_def
                split: option.splits sum.splits)

lemma wellFormed_RemoveBackground:
  "wellFormed st \<Longrightarrow> wellFormed (handleRemoveBackground a st)"
  using replaceAtAngle_set
  by (fastforce simp: wellFormed_def handleRemoveBackground_def Let_def
                split: option.splits sum.splits)

lemma wellFormed_AngleRelease: "wellFormed st \<Longrightarrow> wellFormed (handleAngleRelease a ans st)"
  by (auto simp: wellFormed_def handleAngleRelease_def Let_def
           split: option.splits sum.splits dest: find_in_set)

lemma wellFormed_ViewerSelect:
  "wellFormed st \<Longrightarrow> i < length (sequenceImages st)
   \<Longrightarrow> wellFormed (handleViewerAngleSelect (sequenceImages st ! i) st)"
  by (auto simp: wellFormed_def handleViewerAngleSelect_def split: option.splits)

lemma wellFormed_sequenceLoop:
  assumes "wellFormed st" and "originalImage st = Some orig"
    and "\<forall>img \<in> set ns. isOriginal img \<longrightarrow> img = orig"
  shows "wellFormed (sequenceLoop orig angles answers ns st)"
  using assms
proof (induction angles arbitrary: answers ns st)
  case Nil
  then show ?case by (auto simp: wellFormed_def)
next
  case (Cons a angles)
  show ?case
  proof (cases "a = 0")
    case True
    then show ?thesis using Cons by simp
  next
    case False
    show ?thesis
    proof (cases answers)
      case Nil
      then show ?thesis using False Cons.prems by (auto simp: wellFormed_def)
    next
      case (Cons answer rest)
      note ans = this
      show ?thesis
      proof (cases "generateSceneFromAngle answer")
        case (Inl e)
        then show ?thesis using False ans Cons.prems by (auto simp: wellFormed_def)
      next
        case (Inr url)
        let ?img = "\<lparr>imageId = nextId st, data = url, mimeType = ''image/png'',
                      angle = a, isOriginal = False\<rparr>"
        let ?st2 = "st\<lparr>remoteLog := remoteLog st
                        @ [GenerateReq (getAngleDescription a) (contextPrompt st) orig],
                    sequenceImages := sort_key angle (ns @ [?img]),
                    nextId := nextId st + 1\<rparr>"
        have wf2: "wellFormed ?st2" using Cons.prems by (auto simp: wellFormed_def)
        have o2: "originalImage ?st2 = Some orig" using Cons.prems by simp
        have ns2: "\<forall>img \<in> set (ns @ [?img]). isOriginal img \<longrightarrow> img = orig"
          using Cons.prems by auto
        have "wellFormed (sequenceLoop orig angles rest (ns @ [?img]) ?st2)"
          by (rule Cons.IH[OF wf2 o2 ns2])
        then show ?thesis using False ans Inr by (simp add: Let_def)
      qed
    qed
  qed
qed

lemma wellFormed_GenerateSequence:
  "wellFormed st \<Longrightarrow> wellFormed (handleGenerateSequence answers st)"
proof (cases "originalImage st")
  case None
  assume "wellFormed st"
  then show ?thesis using None by (simp add: handleGenerateSequence_def)
next
  case (Some orig)
  assume wf: "wellFormed st"
  have "wellFormed (sequenceLoop orig sweepAngles answers [orig]
          (st\<lparr>appState := GENERATING_SEQUENCE, error := None\<rparr>))"
    using wf Some by (intro wellFormed_sequenceLoop) (auto simp: wellFormed_def)
  then show ?thesis using Some by (simp add: handleGenerateSequence_def)
qed

lemma wellFormed_dispatch: "wellFormed st \<Longrightarrow> wellFormed (dispatch e st)"
proof (cases e)
  case (ContextInput x)
  assume "wellFormed st"
  then show ?thesis using ContextInput by (auto simp: wellFormed_def split: option.splits)
next
  case (KnobChange a)
  assume "wellFormed st"
  then show ?thesis using KnobChange
    by (auto simp: wellFormed_def handleManualAngleChange_def split: option.splits)
qed (simp_all add: wellFormed_FileChange wellFormed_AutoContext wellFormed_Enhancement
       wellFormed_RemoveBackground wellFormed_GenerateSequence wellFormed_AngleRelease
       wellFormed_ViewerSelect)

lemma wellFormed_run: "wellFormed st \<Longrightarrow> wellFormed (run events st)"
  unfolding run_def
  by (induction events arbitrary: st) (simp_all add: wellFormed_dispatch)

lemma wellFormed_reachable: "wellFormed (run events initialApp)"
  by (simp add: wellFormed_run wellFormed_initial)

text \<open>
  Events other than an accepted upload leave the original in place, and before the
  first accepted upload nothing is held and no identifier has been drawn.
\<close>

lemma run_append: "run (xs @ ys) st = run ys (run xs st)"
  by (simp add: run_def)

lemma run_Cons: "run (e # es) st = run es (dispatch e st)"
  by (simp add: run_def)

lemma beforeUpload_dispatch:
  assumes "\<not> acceptedUpload e" and "beforeUpload st"
  shows "beforeUpload (dispatch e st)"
proof (cases e)
  case (FileChange f)
  then show ?thesis using assms
    by (cases f) (auto simp: beforeUpload_def handleFileChange_def Let_def)
next
  case (ContextInput x)
  then show ?thesis using assms by (simp add: beforeUpload_def)
next
  case (AutoContextClick x)
  then show ?thesis using assms by (simp add: beforeUpload_def handleAutoContext_def)
next
  case (EnhancementClick ty ans)
  then show ?thesis using assms by (simp add: beforeUpload_def handleEnhancement_def)
next
  case (RemoveBackgroundClick ans)
  then show ?thesis using assms by (simp add: beforeUpload_def handleRemoveBackground_def)
next
  case (GenerateSequenceClick answers)
  then show ?thesis using assms by (simp add: beforeUpload_def handleGenerateSequence_def)
next
  case (KnobChange a)
  then show ?thesis using assms by (simp add: beforeUpload_def handleManualAngleChange_def)
next
  case (KnobRelease ans)
  then show ?thesis using assms by (simp add: beforeUpload_def handleAngleRelease_def)
next
  case (ViewerSelect i)
  then show ?thesis using assms by (simp add: beforeUpload_def)
qed

lemma beforeUpload_run:
  "\<forall>e \<in> set events. \<not> acceptedUpload e \<Longrightarrow> beforeUpload st \<Longrightarrow> beforeUpload (run events st)"
  unfolding run_def
  by (induction events arbitrary: st) (simp_all add: beforeUpload_dispatch)

lemma sequenceLoop_original:
  "originalImage (sequenceLoop orig angles answers ns st) = originalImage st"
  by (induction angles arbitrary: answers ns st)
     (auto simp: Let_def split: list.splits sum.splits)

lemma dispatch_keeps_original:
  assumes "\<not> acceptedUpload e"
  shows "originalImage (dispatch e st) = originalImage st"
proof (cases e)
  case (FileChange f)
  then show ?thesis using assms
    by (cases f) (auto simp: handleFileChange_def Let_def)
next
  case (GenerateSequenceClick answers)
  then show ?thesis
    by (simp add: handleGenerateSequence_def sequenceLoop_original split: option.splits)
qed (auto simp: handleAutoContext_def handleEnhancement_def handleRemoveBackground_def
       handleManualAngleChange_def handleAngleRelease_def handleViewerAngleSelect_def Let_def
       split: option.splits sum.splits)

lemma run_keeps_original:
  "\<forall>e \<in> set events. \<not> acceptedUpload e
   \<Longrightarrow> originalImage (run events st) = originalImage st"
  unfolding run_def
  by (induction events arbitrary: st) (simp_all add: dispatch_keeps_original)

text \<open>
  Claim C6. In every session on one uploaded source, that is with a single accepted
  upload and any events before and after it, the images the state holds (the original,
  the current image, the sequence) include exactly one with \<open>isOriginal\<close> set, the image
  made from the uploaded file; every other image, that is every image that came from
  remote generation or from an enhancement, has it cleared.
\<close>

theorem one_original:
  assumes "st = run (pre @ FileChange (Some f) # post) initialApp"
    and "\<not> fileSize f > 5 * 1024 * 1024"
    and "\<forall>e \<in> set pre. \<not> acceptedUpload e"
    and "\<forall>e \<in> set post. \<not> acceptedUpload e"
  shows "originalImage st
           = Some \<lparr>imageId = 0, data = fileDataURL f, mimeType = fileType f,
                   angle = 0, isOriginal = True\<rparr>
         \<and> {img \<in> appImages st. isOriginal img}
           = {\<lparr>imageId = 0, data = fileDataURL f, mimeType = fileType f,
               angle = 0, isOriginal = True\<rparr>}
         \<and> (\<forall>img \<in> appImages st.
               img \<noteq> \<lparr>imageId = 0, data = fileDataURL f, mimeType = fileType f,
                        angle = 0, isOriginal = True\<rparr>
               \<longrightarrow> \<not> isOriginal img)"
proof -
  let ?orig = "\<lparr>imageId = 0, data = fileDataURL f, mimeType = fileType f,
                angle = 0, isOriginal = True\<rparr>"
  have "beforeUpload (run pre initialApp)"
    using assms(3) by (rule beforeUpload_run) (simp add: beforeUpload_def initialApp_def)
  then have "originalImage (dispatch (FileChange (Some f)) (run pre initialApp)) = Some ?orig"
    using assms(2) by (simp add: beforeUpload_def handleFileChange_def Let_def)
  moreover have "st = run post (dispatch (FileChange (Some f)) (run pre initialApp))"
    using assms(1) by (simp add: run_append run_Cons)
  ultimately have o: "originalImage st = Some ?orig"
    using run_keeps_original[OF assms(4)] by simp
  have "wellFormed st" using assms(1) wellFormed_reachable by simp
  then show ?thesis using o
    by (auto simp: wellFormed_def appImages_def)
qed

theorem one_original_witness:
  "{img \<in> appImages (run sampleSession initialApp). isOriginal img} = {sampleOriginal}
   \<and> length (sequenceImages (run sampleSession initialApp)) = 3"
proof -
  have s: "run sampleSession initialApp
           = run ([] @ FileChange (Some sampleFile)
                    # [KnobChange 200, KnobRelease imageAnswer,
                       KnobChange 100, KnobRelease imageAnswer]) initialApp"
    by (simp add: sampleSession_def)
  have z: "\<not> fileSize sampleFile > 5 * 1024 * 1024" by (simp add: sampleFile_def)
  have p: "\<forall>e \<in> set []. \<not> acceptedUpload e" by simp
  have q: "\<forall>e \<in> set [KnobChange 200, KnobRelease imageAnswer,
                       KnobChange 100, KnobRelease imageAnswer]. \<not> acceptedUpload e"
    by simp
  have l: "length (map angle (sequenceImages (run sampleSession initialApp))) = 3"
    by (simp only: sampleSession_angles) simp
  have "{img \<in> appImages (run sampleSession initialApp). isOriginal img}
        = {\<lparr>imageId = 0, data = fileDataURL sampleFile, mimeType = fileType sampleFile,
            angle = 0, isOriginal = True\<rparr>}"
    using one_original[OF s z p q] by blast
  then show ?thesis using l by (simp add: sampleFile_def sampleOriginal_def)
qed



section \<open>Resolving a single angle\<close>

text \<open>
  Claim C2. In every state the application can reach and for every requested angle, if
  the sequence holds an image whose angle differs from the request by less than 10, then
  \<open>handleAngleRelease\<close> makes the first such image the current image and changes nothing
  else: no request is sent to the remote model.
\<close>

theorem cache_hit:
  assumes "st = run events initialApp"
    and "\<exists>img \<in> set (sequenceImages st). \<bar>angle img - a\<bar> < 10"
  shows "\<exists>existing \<in> set (sequenceImages st).
           \<bar>angle existing - a\<bar> < 10
           \<and> find (\<lambda>img. \<bar>angle img - a\<bar> < 10) (sequenceImages st) = Some existing
           \<and> handleAngleRelease a answer st = st\<lparr>currentImage := Some existing\<rparr>
           \<and> currentImage (handleAngleRelease a answer st) = Some existing
           \<and> remoteLog (handleAngleRelease a answer st) = remoteLog st"
proof -
  from assms(2) obtain e
    where e: "find (\<lambda>img. \<bar>angle img - a\<bar> < 10) (sequenceImages st) = Some e"
    by (cases "find (\<lambda>img. \<bar>angle img - a\<bar> < 10) (sequenceImages st)")
       (auto simp: find_None_iff)
  then have m: "e \<in> set (sequenceImages st) \<and> \<bar>angle e - a\<bar> < 10"
    by (rule find_in_set)
  have "sequenceImages st \<noteq> []" using assms(2) by auto
  then obtain orig where o: "originalImage st = Some orig"
    using wellFormed_reachable[of events] assms(1)
    by (cases "originalImage st") (auto simp: wellFormed_def)
  have "handleAngleRelease a answer st = st\<lparr>currentImage := Some e\<rparr>"
    using e o by (simp add: handleAngleRelease_def)
  then show ?thesis using e m by auto
qed

theorem cache_hit_witness:
  "currentImage (handleAngleRelease 95 blockedAnswer (run sampleSession initialApp))
     = Some \<lparr>imageId = 2, data = ''data:image/png;base64,BBBB'', mimeType = ''image/png'',
             angle = 100, isOriginal = False\<rparr>
   \<and> remoteLog (handleAngleRelease 95 blockedAnswer (run sampleSession initialApp))
     = remoteLog (run sampleSession initialApp)"
proof -
  have h: "\<exists>img \<in> set (sequenceImages (run sampleSession initialApp)). \<bar>angle img - 95\<bar> < 10"
    by (simp add: eval_defs)
  show ?thesis
    using cache_hit[OF refl h, of blockedAnswer] by (simp add: eval_defs)
qed

text \<open>
  Claim C3, as stated, fails at the edge of the tolerance: a request for exactly 10
  degrees right after the upload is within 10 degrees of 0, yet it is sent to the remote
  model and the generated image, not the original, becomes the current image.
\<close>

theorem origin_snap_counterexample:
  "remoteLog (handleAngleRelease 10 imageAnswer uploaded)
     = [GenerateReq Frente [] sampleOriginal]
   \<and> currentImage (handleAngleRelease 10 imageAnswer uploaded)
     = Some \<lparr>imageId = 1, data = ''data:image/png;base64,BBBB'', mimeType = ''image/png'',
             angle = 10, isOriginal = False\<rparr>"
  by (simp add: eval_defs getAngleDescription_def js_rem_def js_trunc_def)

text \<open>
  Claim C3, amended. For every requested angle below 10 or above 350 (both strict),
  \<open>handleAngleRelease\<close> sends nothing to the remote model and leaves the sequence as it
  is; the current image becomes the first cached image within 10 degrees of the request
  if there is one, and the original otherwise. In particular the original is shown
  whenever no other cached image lies within 10 degrees of the request.
\<close>

theorem origin_snap:
  assumes "originalImage st = Some orig" and "a < 10 \<or> 350 < a"
  shows "remoteLog (handleAngleRelease a answer st) = remoteLog st
         \<and> sequenceImages (handleAngleRelease a answer st) = sequenceImages st
         \<and> currentImage (handleAngleRelease a answer st)
             = Some (case find (\<lambda>img. \<bar>angle img - a\<bar> < 10) (sequenceImages st) of
                       Some existing \<Rightarrow> existing | None \<Rightarrow> orig)
         \<and> ((\<forall>img \<in> set (sequenceImages st). \<bar>angle img - a\<bar> < 10 \<longrightarrow> img = orig)
              \<longrightarrow> currentImage (handleAngleRelease a answer st) = Some orig)"
  using assms
  by (auto simp: handleAngleRelease_def split: option.splits dest: find_in_set)

theorem origin_snap_witness:
  "currentImage (handleAngleRelease 355 blockedAnswer uploaded) = Some sampleOriginal
   \<and> remoteLog (handleAngleRelease 355 blockedAnswer uploaded) = []"
proof -
  have a: "(355::real) < 10 \<or> 350 < (355::real)" by simp
  show ?thesis
    using origin_snap[OF uploaded_original a, of blockedAnswer] by (simp add: eval_defs)
qed

text \<open>
  The cache is consulted first: with an image generated at 345 in the sequence, a
  request for 352 shows that image, not the original, and still sends nothing.
\<close>

lemma cached_image_before_original:
  "map_option angle
     (currentImage (handleAngleRelease 352 blockedAnswer
        (run [FileChange (Some sampleFile), KnobChange 345, KnobRelease imageAnswer]
           initialApp))) = Some 345
   \<and> remoteLog (handleAngleRelease 352 blockedAnswer
        (run [FileChange (Some sampleFile), KnobChange 345, KnobRelease imageAnswer]
           initialApp))
     = remoteLog (run [FileChange (Some sampleFile), KnobChange 345, KnobRelease imageAnswer]
                    initialApp)"
  by (simp add: eval_defs)

section \<open>Enhancement\<close>

text \<open>
  Claim C5. A successful enhancement of the current image yields an image with the
  angle of the image it was made from; in the sequence it takes the place of every
  entry whose angle is less than 1 degree from that angle, the other entries stay, and
  the length of the sequence does not change. Background removal does the same.
\<close>

theorem enhancement_replaces:
  assumes "currentImage st = Some cur" and "enhanceImage answer = Inr dataUrl"
  shows "\<exists>newImage.
           currentImage (handleEnhancement ty answer st) = Some newImage
           \<and> currentImage (handleRemoveBackground answer st) = Some newImage
           \<and> angle newImage = angle cur \<and> \<not> isOriginal newImage \<and> data newImage = dataUrl
           \<and> length (sequenceImages (handleEnhancement ty answer st))
               = length (sequenceImages st)
           \<and> sequenceImages (handleRemoveBackground answer st)
               = sequenceImages (handleEnhancement ty answer st)
           \<and> (\<forall>i < length (sequenceImages st).
                 sequenceImages (handleEnhancement ty answer st) ! i
                   = (if \<bar>angle (sequenceImages st ! i) - angle cur\<bar> < 1 then newImage
                      else sequenceImages st ! i))"
  using assms
  by (auto simp: handleEnhancement_def handleRemoveBackground_def replaceAtAngle_def Let_def)

theorem enhancement_replaces_witness:
  "currentImage (handleEnhancement ''Color'' imageAnswer uploaded)
     = Some \<lparr>imageId = 1, data = ''data:image/png;base64,BBBB'', mimeType = ''image/png'',
             angle = 0, isOriginal = False\<rparr>
   \<and> length (sequenceImages (handleEnhancement ''Color'' imageAnswer uploaded)) = 1"
  using enhancement_replaces[OF uploaded_current enhance_imageAnswer, of "''Color''"]
  by (simp add: eval_defs)

section \<open>The full sweep\<close>

text \<open>
  The loop when the first answers succeed and the next one fails: it stops at the
  failure, having sent one request per answer consumed.
\<close>

lemma sequenceLoop_fails:
  assumes "0 \<notin> set angles"
    and "sorted (map angle ns @ angles)"
    and "length oks < length angles"
    and "\<forall>r \<in> set oks. \<exists>url. generateSceneFromAngle r = Inr url"
    and "generateSceneFromAngle bad = Inl e"
  shows "\<exists>vs. length vs = length oks
           \<and> map angle vs = take (length oks) angles
           \<and> (\<forall>v \<in> set vs. \<not> isOriginal v)
           \<and> map (\<lambda>v. Inr (data v)) vs = map generateSceneFromAngle oks
           \<and> sequenceImages (sequenceLoop orig angles (oks @ bad # rest) ns st)
               = (if oks = [] then sequenceImages st else ns @ vs)
           \<and> remoteLog (sequenceLoop orig angles (oks @ bad # rest) ns st)
               = remoteLog st
                 @ map (\<lambda>a. GenerateReq (getAngleDescription a) (contextPrompt st) orig)
                     (take (Suc (length oks)) angles)
           \<and> error (sequenceLoop orig angles (oks @ bad # rest) ns st) = Some (SequenceStopped e)
           \<and> appState (sequenceLoop orig angles (oks @ bad # rest) ns st) = ERROR"
  using assms
proof (induction angles arbitrary: oks ns st)
  case Nil
  then show ?case by simp
next
  case (Cons a angles)
  from Cons.prems(1) have a0: "a \<noteq> 0" and rest0: "0 \<notin> set angles" by auto
  show ?case
  proof (cases oks)
    case Nil
    then show ?thesis using a0 Cons.prems(5) by (simp add: Let_def)
  next
    case (Cons r oks')
    from Cons.prems(4) Cons obtain url where url: "generateSceneFromAngle r = Inr url"
      by auto
    let ?img = "\<lparr>imageId = nextId st, data = url, mimeType = ''image/png'',
                  angle = a, isOriginal = False\<rparr>"
    let ?st2 = "st\<lparr>remoteLog := remoteLog st
                    @ [GenerateReq (getAngleDescription a) (contextPrompt st) orig],
                sequenceImages := sort_key angle (ns @ [?img]),
                nextId := nextId st + 1\<rparr>"
    have step: "sequenceLoop orig (a # angles) (oks @ bad # rest) ns st
                = sequenceLoop orig angles (oks' @ bad # rest) (ns @ [?img]) ?st2"
      using a0 Cons url by (simp add: Let_def)
    have srt: "sorted (map angle (ns @ [?img]) @ angles)"
      using Cons.prems(2) by simp
    have srt': "sorted (map angle (ns @ [?img]))"
      using srt by (simp add: sorted_append)
    have len: "length oks' < length angles" using Cons.prems(3) Cons by simp
    have oks': "\<forall>r \<in> set oks'. \<exists>url. generateSceneFromAngle r = Inr url"
      using Cons.prems(4) Cons by simp
    from Cons.IH[where ns = "ns @ [?img]" and oks = oks' and st = ?st2,
        OF rest0 srt len oks' Cons.prems(5)]
    obtain vs where vs:
      "length vs = length oks'"
      "map angle vs = take (length oks') angles"
      "\<forall>v \<in> set vs. \<not> isOriginal v"
      "map (\<lambda>v. Inr (data v)) vs = map generateSceneFromAngle oks'"
      "sequenceImages (sequenceLoop orig angles (oks' @ bad # rest) (ns @ [?img]) ?st2)
         = (if oks' = [] then sequenceImages ?st2 else (ns @ [?img]) @ vs)"
      "remoteLog (sequenceLoop orig angles (oks' @ bad # rest) (ns @ [?img]) ?st2)
         = remoteLog ?st2
           @ map (\<lambda>a. GenerateReq (getAngleDescription a) (contextPrompt ?st2) orig)
               (take (Suc (length oks')) angles)"
      "error (sequenceLoop orig angles (oks' @ bad # rest) (ns @ [?img]) ?st2)
         = Some (SequenceStopped e)"
      "appState (sequenceLoop orig angles (oks' @ bad # rest) (ns @ [?img]) ?st2) = ERROR"
      by blast
    have store: "sequenceImages (sequenceLoop orig angles (oks' @ bad # rest) (ns @ [?img]) ?st2)
                 = ns @ ?img # vs"
    proof (cases "oks' = []")
      case True
      then have "vs = []" using vs(1) by simp
      then show ?thesis using True vs(5) sort_key_id_if_sorted[OF srt'] by simp
    next
      case False
      then show ?thesis using vs(5) by simp
    qed
    show ?thesis
    proof (intro exI[of _ "?img # vs"] conjI)
      show "length (?img # vs) = length oks" using vs(1) Cons by simp
      show "map angle (?img # vs) = take (length oks) (a # angles)" using vs(2) Cons by simp
      show "\<forall>v \<in> set (?img # vs). \<not> isOriginal v" using vs(3) by simp
      show "map (\<lambda>v. Inr (data v)) (?img # vs) = map generateSceneFromAngle oks"
        using vs(4) Cons url by simp
      show "sequenceImages (sequenceLoop orig (a # angles) (oks @ bad # rest) ns st)
            = (if oks = [] then sequenceImages st else ns @ ?img # vs)"
        unfolding step using store Cons by simp
      show "remoteLog (sequenceLoop orig (a # angles) (oks @ bad # rest) ns st)
            = remoteLog st
              @ map (\<lambda>a. GenerateReq (getAngleDescription a) (contextPrompt st) orig)
                  (take (Suc (length oks)) (a # angles))"
        unfolding step using vs(6) Cons by simp
      show "error (sequenceLoop orig (a # angles) (oks @ bad # rest) ns st)
            = Some (SequenceStopped e)"
        unfolding step using vs(7) by simp
      show "appState (sequenceLoop orig (a # angles) (oks @ bad # rest) ns st) = ERROR"
        unfolding step using vs(8) by simp
    qed
  qed
qed

text \<open>
  Claim C1, as stated, fails when the very first call of the sweep fails: the store is
  only written after a success, so it keeps what it held before the sweep. After the
  sample session it still holds the original and the two variants generated earlier,
  not the original alone.
\<close>

theorem sweep_failure_counterexample:
  "map angle (sequenceImages (run (sampleSession @ [GenerateSequenceClick [blockedAnswer]])
                                initialApp)) = [0, 100, 200]
   \<and> error (run (sampleSession @ [GenerateSequenceClick [blockedAnswer]]) initialApp)
       = Some (SequenceStopped (SafetyBlock ''OTHER''))"
  by (simp add: eval_defs)

text \<open>
  Claim C1, amended. In every reachable state with an uploaded original, if the first
  \<open>n\<close> remote calls of a sweep succeed (\<open>n < 7\<close>) and the next one fails, then exactly
  \<open>n + 1\<close> requests are sent, for the first \<open>n + 1\<close> angles of 45, 90, ..., 315 and none
  after the failure; the error of the failed call is surfaced as the sequence error and
  the application state is \<open>ERROR\<close>; and for \<open>n \<ge> 1\<close> the store is exactly the original
  followed by the \<open>n\<close> generated variants, in angle order, while for \<open>n = 0\<close> the store is
  what it was before the sweep.
\<close>

theorem sweep_failure:
  assumes "st = run events initialApp"
    and "originalImage st = Some orig"
    and "length oks < 7"
    and "\<forall>r \<in> set oks. \<exists>url. generateSceneFromAngle r = Inr url"
    and "generateSceneFromAngle bad = Inl e"
  shows "\<exists>vs. length vs = length oks
           \<and> map angle vs = take (length oks) [45, 90, 135, 180, 225, 270, 315]
           \<and> (\<forall>v \<in> set vs. \<not> isOriginal v)
           \<and> map (\<lambda>v. Inr (data v)) vs = map generateSceneFromAngle oks
           \<and> sequenceImages (handleGenerateSequence (oks @ bad # rest) st)
               = (if oks = [] then sequenceImages st else orig # vs)
           \<and> remoteLog (handleGenerateSequence (oks @ bad # rest) st)
               = remoteLog st
                 @ map (\<lambda>a. GenerateReq (getAngleDescription a) (contextPrompt st) orig)
                     (take (Suc (length oks)) [45, 90, 135, 180, 225, 270, 315])
           \<and> error (handleGenerateSequence (oks @ bad # rest) st) = Some (SequenceStopped e)
           \<and> appState (handleGenerateSequence (oks @ bad # rest) st) = ERROR"
proof -
  let ?st0 = "st\<lparr>appState := GENERATING_SEQUENCE, error := None\<rparr>"
  let ?angles = "[45, 90, 135, 180, 225, 270, 315] :: real list"
  have a0: "angle orig = 0"
    using wellFormed_reachable[of events] assms(1,2) by (simp add: wellFormed_def)
  have h: "handleGenerateSequence (oks @ bad # rest) st
           = sequenceLoop orig ?angles (oks @ bad # rest) [orig] ?st0"
    using assms(2) by (simp add: handleGenerateSequence_def sweepAngles_def)
  have z: "0 \<notin> set ?angles" by simp
  have s: "sorted (map angle [orig] @ ?angles)" using a0 by simp
  have l: "length oks < length ?angles" using assms(3) by simp
  from sequenceLoop_fails[OF z s l assms(4) assms(5), of orig rest ?st0]
  obtain vs where v:
    "length vs = length oks"
    "map angle vs = take (length oks) ?angles"
    "\<forall>v \<in> set vs. \<not> isOriginal v"
    "map (\<lambda>v. Inr (data v)) vs = map generateSceneFromAngle oks"
    "sequenceImages (sequenceLoop orig ?angles (oks @ bad # rest) [orig] ?st0)
       = (if oks = [] then sequenceImages ?st0 else [orig] @ vs)"
    "remoteLog (sequenceLoop orig ?angles (oks @ bad # rest) [orig] ?st0)
       = remoteLog ?st0
         @ map (\<lambda>a. GenerateReq (getAngleDescription a) (contextPrompt ?st0) orig)
             (take (Suc (length oks)) ?angles)"
    "error (sequenceLoop orig ?angles (oks @ bad # rest) [orig] ?st0)
       = Some (SequenceStopped e)"
    "appState (sequenceLoop orig ?angles (oks @ bad # rest) [orig] ?st0) = ERROR"
    by blast
  show ?thesis
    unfolding h
  proof (intro exI[of _ vs] conjI)
    show "sequenceImages (sequenceLoop orig ?angles (oks @ bad # rest) [orig] ?st0)
          = (if oks = [] then sequenceImages st else orig # vs)"
      unfolding v(5) by simp
    show "remoteLog (sequenceLoop orig ?angles (oks @ bad # rest) [orig] ?st0)
          = remoteLog st
            @ map (\<lambda>a. GenerateReq (getAngleDescription a) (contextPrompt st) orig)
                (take (Suc (length oks)) ?angles)"
      unfolding v(6) by simp
  qed (rule v)+
qed

lemma uploaded_reachable: "uploaded = run [FileChange (Some sampleFile)] initialApp"
  by (simp add: run_def uploaded_def)

theorem sweep_failure_witness:
  "map angle (sequenceImages
       (handleGenerateSequence [imageAnswer, imageAnswer, imageAnswer, blockedAnswer] uploaded))
     = [0, 45, 90, 135]
   \<and> length (remoteLog
       (handleGenerateSequence [imageAnswer, imageAnswer, imageAnswer, blockedAnswer] uploaded))
     = 4
   \<and> error (handleGenerateSequence [imageAnswer, imageAnswer, imageAnswer, blockedAnswer] uploaded)
     = Some (SequenceStopped (SafetyBlock ''OTHER''))"
proof -
  have l: "length [imageAnswer, imageAnswer, imageAnswer] < 7" by simp
  have k: "\<forall>r \<in> set [imageAnswer, imageAnswer, imageAnswer].
             \<exists>url. generateSceneFromAngle r = Inr url"
    by (simp add: generate_imageAnswer)
  show ?thesis
    using sweep_failure[OF uploaded_reachable uploaded_original l k generate_blockedAnswer,
                        of "[]"]
    by (simp add: eval_defs)
qed

section \<open>The knob\<close>

lemma arctan_le_arg:
  assumes "0 \<le> x"
  shows "arctan x \<le> x"
proof -
  have "(\<lambda>t. t - arctan t) 0 \<le> (\<lambda>t. t - arctan t) x"
  proof (rule DERIV_nonneg_imp_nondecreasing[OF assms])
    fix t :: real
    have d: "DERIV (\<lambda>t. t - arctan t) t :> 1 - inverse (1 + t\<^sup>2)"
      by (auto intro!: derivative_eq_intros)
    have "1 \<le> 1 + t\<^sup>2" by simp
    then have "inverse (1 + t\<^sup>2) \<le> 1"
      by (metis inverse_1 le_imp_inverse_le zero_less_one)
    then show "\<exists>y. DERIV (\<lambda>t. t - arctan t) t :> y \<and> 0 \<le> y"
      using d by (intro exI[of _ "1 - inverse (1 + t\<^sup>2)"]) simp
  qed
  then show ?thesis by simp
qed

lemma atan2_range: "- pi \<le> atan2 y x \<and> atan2 y x \<le> pi"
proof -
  have b: "- (pi / 2) < arctan (y / x)" "arctan (y / x) < pi / 2"
    by (rule arctan_lbound, rule arctan_ubound)
  have p: "0 < pi" by simp
  show ?thesis
    unfolding atan2_def using b p
    by (auto simp: zero_le_divide_iff divide_le_0_iff)
qed

lemma degrees_range:
  assumes "- pi \<le> r" and "r \<le> pi"
  shows "- 180 \<le> r * (180 / pi) \<and> r * (180 / pi) \<le> 180"
proof -
  have p: "0 < pi" by simp
  have e: "r * (180 / pi) = 180 * (r / pi)" by simp
  have "- 1 \<le> r / pi" using assms(1) p by (simp add: pos_le_divide_eq)
  moreover have "r / pi \<le> 1" using assms(2) p by (simp add: pos_divide_le_eq)
  ultimately show ?thesis unfolding e by linarith
qed

lemma round_range:
  assumes "0 \<le> x" and "x < 360"
  shows "0 \<le> round x \<and> round x \<le> 360 \<and> \<bar>real_of_int (round x) - x\<bar> \<le> 1 / 2"
proof -
  have "round (0::real) \<le> round x" using assms(1) by (rule round_mono)
  moreover have "round x \<le> round (360::real)" using assms(2) by (intro round_mono) simp
  moreover have "\<bar>real_of_int (round x) - x\<bar> \<le> 1 / 2"
    using of_int_round_abs_le[of x] by simp
  ultimately show ?thesis by simp
qed

text \<open>
  Claim C7, as stated, fails just left of straight up: with the pointer one pixel left
  of the centre and 200 pixels above it the exact angle is a little under 360, and
  rounding returns 360, which is outside \<open>[0, 360)\<close>.
\<close>

theorem calculateAngle_counterexample:
  "calculateAngle (Some knobRect) 195 96 = 360"
proof -
  define t where "t = arctan (1 / 200) * (180 / pi)"
  have p2: "2 \<le> pi" by (rule pi_ge_two)
  have a1: "0 < arctan (1 / 200 :: real)" by simp
  have a2: "arctan (1 / 200 :: real) \<le> 1 / 200" by (rule arctan_le_arg) simp
  have "180 / pi \<le> 90" using p2 by (simp add: pos_divide_le_eq)
  moreover have "0 < 180 / pi" by simp
  ultimately have "t \<le> (1 / 200) * 90"
    unfolding t_def using a1 a2 by (intro mult_mono) auto
  then have t2: "t \<le> 9 / 20" by simp
  have t1: "0 < t" unfolding t_def using a1 by simp
  have inv: "arctan (200 :: real) = pi / 2 - arctan (1 / 200)"
    using arctan_inverse[of "200 :: real"] by simp
  have at: "atan2 (- 200) (- 1) = arctan 200 - pi"
    by (simp add: atan2_def)
  have "atan2 (- 200) (- 1) * (180 / pi) + 90 = - t"
    unfolding at inv t_def by (simp add: field_simps)
  then have c: "calculateAngle (Some knobRect) 195 96 = of_int (round (360 - t))"
    using t1 by (simp add: calculateAngle_def knobRect_def Let_def)
  have "round (360 - t) = 360"
    using t1 t2 by (intro round_unique) auto
  then show ?thesis using c by simp
qed

text \<open>
  Claim C7, amended. For every pointer position the returned value is a whole number
  in the closed interval from 0 to 360, and with the knob mounted it is within half a
  degree of \<open>atan2(dy, dx)\<close> in degrees, turned by 90 so that 0 points up and lifted by
  360 when negative: it is that angle rounded to the nearest integer.
\<close>

theorem calculateAngle_range:
  "0 \<le> calculateAngle knob clientX clientY
   \<and> calculateAngle knob clientX clientY \<le> 360
   \<and> calculateAngle knob clientX clientY \<in> \<int>
   \<and> (\<forall>rect. knob = Some rect \<longrightarrow>
         \<bar>calculateAngle knob clientX clientY
            - (let d = atan2 (clientY - (rectTop rect + rectHeight rect / 2))
                             (clientX - (rectLeft rect + rectWidth rect / 2)) * (180 / pi) + 90
               in if d < 0 then d + 360 else d)\<bar> \<le> 1 / 2)"
proof (cases knob)
  case None
  then show ?thesis by (simp add: calculateAngle_def)
next
  case (Some rect)
  define d where "d = atan2 (clientY - (rectTop rect + rectHeight rect / 2))
                            (clientX - (rectLeft rect + rectWidth rect / 2)) * (180 / pi) + 90"
  define n where "n = (if d < 0 then d + 360 else d)"
  let ?r = "atan2 (clientY - (rectTop rect + rectHeight rect / 2))
                  (clientX - (rectLeft rect + rectWidth rect / 2))"
  have ar: "- pi \<le> ?r \<and> ?r \<le> pi" by (rule atan2_range)
  have "- 180 \<le> ?r * (180 / pi) \<and> ?r * (180 / pi) \<le> 180"
    using ar by (intro degrees_range) auto
  then have "- 90 \<le> d \<and> d \<le> 270"
    unfolding d_def by linarith
  then have n: "0 \<le> n" "n < 360" by (auto simp: n_def)
  have c: "calculateAngle knob clientX clientY = of_int (round n)"
    using Some by (simp add: calculateAngle_def Let_def d_def n_def)
  have r: "0 \<le> round n \<and> round n \<le> 360 \<and> \<bar>real_of_int (round n) - n\<bar> \<le> 1 / 2"
    using n by (rule round_range)
  have eq: "(let d = atan2 (clientY - (rectTop rect + rectHeight rect / 2))
                           (clientX - (rectLeft rect + rectWidth rect / 2)) * (180 / pi) + 90
             in if d < 0 then d + 360 else d) = n"
    unfolding n_def d_def Let_def by (rule refl)
  have f0: "\<bar>calculateAngle knob clientX clientY - n\<bar> \<le> 1 / 2" using r c by simp
  have f1: "0 \<le> calculateAngle knob clientX clientY" using r c by simp
  have f2: "calculateAngle knob clientX clientY \<le> 360" using r c by simp
  have f3: "calculateAngle knob clientX clientY \<in> \<int>" using c by simp
  show ?thesis
  proof (intro conjI allI impI)
    fix rect'
    assume "knob = Some rect'"
    then have "rect' = rect" using Some by simp
    then show "\<bar>calculateAngle knob clientX clientY
                 - (let d = atan2 (clientY - (rectTop rect' + rectHeight rect' / 2))
                                  (clientX - (rectLeft rect' + rectWidth rect' / 2)) * (180 / pi) + 90
                    in if d < 0 then d + 360 else d)\<bar> \<le> 1 / 2"
      using f0 unfolding eq[symmetric] by simp
  qed (rule f1 f2 f3)+
qed

theorem calculateAngle_range_witness:
  "calculateAngle (Some knobRect) 296 296 = 90
   \<and> 0 \<le> calculateAngle (Some knobRect) 296 296
   \<and> calculateAngle (Some knobRect) 296 296 \<le> 360"
  using calculateAngle_range[of "Some knobRect" 296 296]
  by (simp add: calculateAngle_def knobRect_def atan2_def)

end
